theory Spec2Isabelle
  imports Main "HOL-Library.Sublist"
begin

section \<open>QuipScript: interpreter, JIT, compiler and optimizing compiler\<close>

text \<open>
  The repository holds four JavaScript programs over one toy language, QuipScript: an
  interpreter and a JIT driver (both in \<^verbatim>\<open>jit.js\<close>), an ahead-of-time compiler
  (\<^verbatim>\<open>compiler.js\<close>) and an optimizing compiler (\<^verbatim>\<open>unnamed/part_000\<close>). Each one
  reads a source text, splits it at the two-character sequence CR LF and walks the lines
  with the same chain of tests on \<^verbatim>\<open>line[0]\<close>.

  JavaScript strings are modelled as \<^typ>\<open>string\<close>, a thrown exception as a value of
  \<open>js_error\<close>, and \<^verbatim>\<open>console.log\<close> as a list of printed strings in order of printing.
\<close>

subsection \<open>Characters that cannot be written inside a literal\<close>

abbreviation LF :: char where "LF \<equiv> CHR 0x0A"
abbreviation CR :: char where "CR \<equiv> CHR 0x0D"
abbreviation squote :: char where "squote \<equiv> CHR 0x27"
abbreviation dquote :: char where "dquote \<equiv> CHR 0x22"
abbreviation backslash :: char where "backslash \<equiv> CHR 0x5C"

subsection \<open>Errors\<close>

text \<open>
  \<open>JsError m\<close> is the object made by \<^verbatim>\<open>new Error(m)\<close>: its only datum is the
  message. \<open>JsSyntaxError\<close> and \<open>JsReferenceError\<close> are what the JavaScript engine
  raises on generated program text; \<open>JsENOENT\<close> is \<^verbatim>\<open>readFileSync\<close> on a missing file.
\<close>

datatype js_error = JsError string | JsSyntaxError | JsReferenceError | JsENOENT

definition invalid_line_error :: js_error where
  "invalid_line_error = JsError ''ERROR I AM AN INVALID LINE''"

subsection \<open>Splitting the source text: \<^verbatim>\<open>sourceCode.split("\r\n")\<close>\<close>

text \<open>
  \<^verbatim>\<open>String.prototype.split\<close> with a non-empty separator cuts at every occurrence of
  the separator, scanning from the left, and always returns at least one piece: the
  empty text gives one empty line. \<open>cur\<close> is the piece being collected.
\<close>

fun split_from :: "string \<Rightarrow> string \<Rightarrow> string list" where
  "split_from cur [] = [cur]"
| "split_from cur [c] = [cur @ [c]]"
| "split_from cur (c # d # rest) =
     (if c = CR \<and> d = LF then cur # split_from [] rest
      else split_from (cur @ [c]) (d # rest))"

definition split_crlf :: "string \<Rightarrow> string list" where
  "split_crlf sourceCode = split_from [] sourceCode"

subsection \<open>The test on the first character\<close>

text \<open>
  \<^verbatim>\<open>line[0]\<close> is the first character of the line, and \<^verbatim>\<open>undefined\<close> on the empty
  line; \<^verbatim>\<open>undefined == "p"\<close> is false, so the empty line falls through to the last
  branch.
\<close>

definition first_char :: "string \<Rightarrow> char option" where
  "first_char line = (case line of [] \<Rightarrow> None | c # _ \<Rightarrow> Some c)"

subsection \<open>The interpreter (\<^verbatim>\<open>jit.js\<close>, second program)\<close>

text \<open>
  \<^verbatim>\<open>
  let string = "";
  sourceCode.split("\r\n").forEach((line) => {
    if (line[0] == "p") { console.log(string); }
    else if (line[0] == "t") { throw new Error("ERROR I AM AN INVALID LINE"); }
    else if (line[0] == '#') {}
    else { string += line }
  });
  \<close>
  The result is what was printed, in order, and the exception that ended the run, if any.
  What was printed before a throw stays printed.
\<close>

fun interpret_loop :: "string \<Rightarrow> string list \<Rightarrow> string list \<times> js_error option" where
  "interpret_loop string [] = ([], None)"
| "interpret_loop string (line # rest) =
     (if first_char line = Some CHR ''p'' then
        (case interpret_loop string rest of (out, e) \<Rightarrow> (string # out, e))
      else if first_char line = Some CHR ''t'' then ([], Some invalid_line_error)
      else if first_char line = Some CHR ''#'' then interpret_loop string rest
      else interpret_loop (string @ line) rest)"

definition interpret_lines :: "string list \<Rightarrow> string list \<times> js_error option" where
  "interpret_lines ls = interpret_loop [] ls"

definition interpret_source :: "string \<Rightarrow> string list \<times> js_error option" where
  "interpret_source sourceCode = interpret_lines (split_crlf sourceCode)"

subsection \<open>The compiler (\<^verbatim>\<open>compiler.js\<close>)\<close>

text \<open>
  \<^verbatim>\<open>
  let program = 'let string = ""\n';
  sourceCode.split("\r\n").forEach((line) => {
    if (line[0] == "p") { program += "console.log(string)\n"; }
    else if (line[0] == "t") { throw new Error("ERROR I AM AN INVALID LINE"); }
    else if (line[0] == "#") {}
    else { program += `string += '${line}'\n`; }
  });
  writeFileSync('./output.js', program);
  \<close>
  The line is pasted between the quotes as it is.
\<close>

definition prelude :: string where
  "prelude = ''let string = '' @ [dquote, dquote, LF]"

definition print_current_text :: string where
  "print_current_text = ''console.log(string)'' @ [LF]"

definition append_text :: "string \<Rightarrow> string" where
  "append_text line = ''string += '' @ [squote] @ line @ [squote, LF]"

fun compile_loop :: "string \<Rightarrow> string list \<Rightarrow> js_error + string" where
  "compile_loop program [] = Inr program"
| "compile_loop program (line # rest) =
     (if first_char line = Some CHR ''p'' then compile_loop (program @ print_current_text) rest
      else if first_char line = Some CHR ''t'' then Inl invalid_line_error
      else if first_char line = Some CHR ''#'' then compile_loop program rest
      else compile_loop (program @ append_text line) rest)"

definition compile_lines :: "string list \<Rightarrow> js_error + string" where
  "compile_lines ls = compile_loop prelude ls"

definition compile_source :: "string \<Rightarrow> js_error + string" where
  "compile_source sourceCode = compile_lines (split_crlf sourceCode)"

subsection \<open>The optimizing compiler (\<^verbatim>\<open>unnamed/part_000\<close>)\<close>

text \<open>
  \<^verbatim>\<open>
  let program = '';
  let string = '';
  sourceCode.split("\r\n").forEach((line) => {
    if (line[0] == "p") { program += `console.log('${string}')\n`; }
    else if (line[0] == "t") { throw new Error("ERROR I AM AN INVALID LINE"); }
    else if (line[0] == "#") {}
    else { string += line; }
  });
  writeFileSync("./optimized-output.js", program);
  \<close>
  The loop's state is the pair of \<^verbatim>\<open>program\<close> and \<^verbatim>\<open>string\<close>; it is returned
  whole so that both can be observed after any number of lines.
\<close>

definition print_literal_text :: "string \<Rightarrow> string" where
  "print_literal_text string = ''console.log('' @ [squote] @ string @ [squote] @ '')'' @ [LF]"

fun optimize_loop :: "string \<Rightarrow> string \<Rightarrow> string list \<Rightarrow> js_error + (string \<times> string)" where
  "optimize_loop program string [] = Inr (program, string)"
| "optimize_loop program string (line # rest) =
     (if first_char line = Some CHR ''p'' then
        optimize_loop (program @ print_literal_text string) string rest
      else if first_char line = Some CHR ''t'' then Inl invalid_line_error
      else if first_char line = Some CHR ''#'' then optimize_loop program string rest
      else optimize_loop program (string @ line) rest)"

definition compileOptimized_lines :: "string list \<Rightarrow> js_error + string" where
  "compileOptimized_lines ls = map_sum id fst (optimize_loop [] [] ls)"

definition compileOptimized_source :: "string \<Rightarrow> js_error + string" where
  "compileOptimized_source sourceCode = compileOptimized_lines (split_crlf sourceCode)"

subsection \<open>Reading and writing files\<close>

text \<open>
  The file system is a store from paths to contents. \<^verbatim>\<open>readFileSync\<close> on a missing
  path throws; \<^verbatim>\<open>writeFileSync\<close> replaces the whole content of its path. Both
  compilers call \<^verbatim>\<open>writeFileSync\<close> once, after the loop, so a throw inside the loop
  leaves the store as it was.
\<close>

type_synonym files = "string \<rightharpoonup> string"

definition compiler_main :: "files \<Rightarrow> files \<times> js_error option" where
  "compiler_main fs =
     (case fs ''./hello-world.qs'' of
        None \<Rightarrow> (fs, Some JsENOENT)
      | Some sourceCode \<Rightarrow>
          (case compile_source sourceCode of
             Inl e \<Rightarrow> (fs, Some e)
           | Inr program \<Rightarrow> (fs(''./output.js'' \<mapsto> program), None)))"

definition optimizer_main :: "files \<Rightarrow> files \<times> js_error option" where
  "optimizer_main fs =
     (case fs ''./hello-world.qs'' of
        None \<Rightarrow> (fs, Some JsENOENT)
      | Some sourceCode \<Rightarrow>
          (case compileOptimized_source sourceCode of
             Inl e \<Rightarrow> (fs, Some e)
           | Inr program \<Rightarrow> (fs(''./optimized-output.js'' \<mapsto> program), None)))"

subsection \<open>The JavaScript engine on generated program text\<close>

text \<open>
  The compiled text is run by the JavaScript engine: by \<^verbatim>\<open>eval(program)\<close> in the JIT
  driver, by \<^verbatim>\<open>node output.js\<close> for the compilers. The engine is modelled on the
  statements the three generators write, one per line:
  \<^verbatim>\<open>let string = ""\<close> (first line only), \<^verbatim>\<open>string += '...'\<close>,
  \<^verbatim>\<open>console.log(string)\<close> and \<^verbatim>\<open>console.log('...')\<close>.
  The whole text is parsed before anything runs, so a syntax error anywhere means that
  nothing is printed. Text that is not made of these statements gets the answer
  \<open>Unmodelled\<close>: the model says nothing about it.
\<close>

datatype instr = AppendLiteral string | PrintCurrent | PrintLiteral string

fun split_lf_from :: "string \<Rightarrow> string \<Rightarrow> string list" where
  "split_lf_from cur [] = [cur]"
| "split_lf_from cur (c # cs) =
     (if c = LF then cur # split_lf_from [] cs else split_lf_from (cur @ [c]) cs)"

definition split_lf :: "string \<Rightarrow> string list" where
  "split_lf text = split_lf_from [] text"

text \<open>
  The value of \<^verbatim>\<open>\c\<close> inside a string literal, for the single-character escapes of
  ECMAScript. Hexadecimal, Unicode and octal escapes, and a backslash before any other
  character, are left out.
\<close>

definition single_escape :: "char \<Rightarrow> char option" where
  "single_escape c =
     (if c = squote then Some squote
      else if c = dquote then Some dquote
      else if c = backslash then Some backslash
      else if c = CHR ''b'' then Some (CHR 0x08)
      else if c = CHR ''f'' then Some (CHR 0x0C)
      else if c = CHR ''n'' then Some LF
      else if c = CHR ''r'' then Some CR
      else if c = CHR ''t'' then Some (CHR 0x09)
      else if c = CHR ''v'' then Some (CHR 0x0B)
      else None)"

text \<open>
  A single-quoted string literal, read from just after its opening quote to the end of
  the line: \<open>Lit v rest\<close> is the literal's value and what follows its closing quote.
  A literal that reaches the end of the line (or a bare CR) is unterminated, a syntax
  error. A backslash at the very end of the line is a line continuation and is left out.
\<close>

datatype lit = Lit string string | Unterminated | OtherEscape

fun string_literal :: "string \<Rightarrow> string \<Rightarrow> lit" where
  "string_literal v [] = Unterminated"
| "string_literal v (c # cs) =
     (if c = squote then Lit v cs
      else if c = CR then Unterminated
      else if c = backslash then
        (case cs of
           [] \<Rightarrow> OtherEscape
         | d # ds \<Rightarrow>
             (case single_escape d of
                None \<Rightarrow> OtherEscape
              | Some e \<Rightarrow> string_literal (v @ [e]) ds))
      else string_literal (v @ [c]) cs)"

fun strip_prefix :: "string \<Rightarrow> string \<Rightarrow> string option" where
  "strip_prefix [] text = Some text"
| "strip_prefix (p # ps) [] = None"
| "strip_prefix (p # ps) (c # cs) = (if p = c then strip_prefix ps cs else None)"

datatype parsed_line = Stmt instr | Blank | SyntaxErr | Unknown

text \<open>
  What follows a complete literal, when it is not what the statement needs. A quote
  there opens a second literal; if that one never closes the line cannot be read at
  all, a syntax error. Anything else is left out.
\<close>

definition after_literal :: "string \<Rightarrow> parsed_line" where
  "after_literal rest =
     (case rest of
        [] \<Rightarrow> Unknown
      | c # cs \<Rightarrow>
          if c = squote then
            (case string_literal [] cs of
               Unterminated \<Rightarrow> SyntaxErr
             | _ \<Rightarrow> Unknown)
          else Unknown)"

definition parse_line :: "string \<Rightarrow> parsed_line" where
  "parse_line l =
     (if l = [] then Blank
      else if l = ''console.log(string)'' then Stmt PrintCurrent
      else
        (case strip_prefix (''string += '' @ [squote]) l of
           Some body \<Rightarrow>
             (case string_literal [] body of
                Lit v rest \<Rightarrow> if rest = [] then Stmt (AppendLiteral v) else after_literal rest
              | Unterminated \<Rightarrow> SyntaxErr
              | OtherEscape \<Rightarrow> Unknown)
         | None \<Rightarrow>
             (case strip_prefix (''console.log('' @ [squote]) l of
                Some body \<Rightarrow>
                  (case string_literal [] body of
                     Lit v rest \<Rightarrow> if rest = '')'' then Stmt (PrintLiteral v) else after_literal rest
                   | Unterminated \<Rightarrow> SyntaxErr
                   | OtherEscape \<Rightarrow> Unknown)
              | None \<Rightarrow> Unknown)))"

text \<open>
  Parsing stops at the first line that is not a statement: \<open>None\<close> when the model does
  not cover it, a syntax error when the engine rejects it.
\<close>

fun parse_lines :: "string list \<Rightarrow> (js_error + instr list) option" where
  "parse_lines [] = Some (Inr [])"
| "parse_lines (l # ls) =
     (case parse_line l of
        Unknown \<Rightarrow> None
      | SyntaxErr \<Rightarrow> Some (Inl JsSyntaxError)
      | Blank \<Rightarrow> parse_lines ls
      | Stmt i \<Rightarrow>
          (case parse_lines ls of
             None \<Rightarrow> None
           | Some (Inl e) \<Rightarrow> Some (Inl e)
           | Some (Inr is) \<Rightarrow> Some (Inr (i # is))))"

text \<open>
  Execution. The state is the variable \<^verbatim>\<open>string\<close>: \<open>None\<close> while it is not
  declared, when reading it throws a ReferenceError.
\<close>

fun exec :: "string option \<Rightarrow> instr list \<Rightarrow> string list \<times> js_error option" where
  "exec st [] = ([], None)"
| "exec st (AppendLiteral v # is) =
     (case st of
        None \<Rightarrow> ([], Some JsReferenceError)
      | Some s \<Rightarrow> exec (Some (s @ v)) is)"
| "exec st (PrintCurrent # is) =
     (case st of
        None \<Rightarrow> ([], Some JsReferenceError)
      | Some s \<Rightarrow> (case exec st is of (out, e) \<Rightarrow> (s # out, e)))"
| "exec st (PrintLiteral v # is) =
     (case exec st is of (out, e) \<Rightarrow> (v # out, e))"

datatype js_outcome = Ran "string list" "js_error option" | Unmodelled

definition run_lines :: "string option \<Rightarrow> string list \<Rightarrow> js_outcome" where
  "run_lines st ls =
     (case parse_lines ls of
        None \<Rightarrow> Unmodelled
      | Some (Inl e) \<Rightarrow> Ran [] (Some e)
      | Some (Inr is) \<Rightarrow> (case exec st is of (out, e) \<Rightarrow> Ran out e))"

definition run_js :: "string \<Rightarrow> js_outcome" where
  "run_js text =
     (case split_lf text of
        [] \<Rightarrow> run_lines None []
      | l # ls \<Rightarrow>
          if l = ''let string = '' @ [dquote, dquote] then run_lines (Some []) ls
          else run_lines None (l # ls))"

subsection \<open>The JIT driver (\<^verbatim>\<open>jit.js\<close>, first program)\<close>

text \<open>
  \<^verbatim>\<open>
  let program = 'let string = ""\n';
  sourceCode.split("\r\n").forEach(line => {
      if (line[0] == "p") { program += "console.log(string)\n"; }
      else if (line[0] == "t") { throw new Error("ERROR I AM AN INVALID LINE"); }
      else if (line[0] == "#") {}
      else { program += `string += '${line}'\n`; }
  })
  eval(program)
  \<close>
\<close>

fun jit_loop :: "string \<Rightarrow> string list \<Rightarrow> js_error + string" where
  "jit_loop program [] = Inr program"
| "jit_loop program (line # rest) =
     (if first_char line = Some CHR ''p'' then jit_loop (program @ print_current_text) rest
      else if first_char line = Some CHR ''t'' then Inl invalid_line_error
      else if first_char line = Some CHR ''#'' then jit_loop program rest
      else jit_loop (program @ append_text line) rest)"

definition jitRun_lines :: "string list \<Rightarrow> js_outcome" where
  "jitRun_lines ls =
     (case jit_loop prelude ls of
        Inl e \<Rightarrow> Ran [] (Some e)
      | Inr program \<Rightarrow> run_js program)"

definition jitRun_source :: "string \<Rightarrow> js_outcome" where
  "jitRun_source sourceCode = jitRun_lines (split_crlf sourceCode)"

subsection \<open>Statements\<close>

text \<open>
  The kinds of statement of the specification, read off the chain of tests that the four
  loops share.
\<close>

datatype statement = Comment | Emit string | Print | Invalid

definition classify :: "string \<Rightarrow> statement" where
  "classify line =
     (if first_char line = Some CHR ''p'' then Print
      else if first_char line = Some CHR ''t'' then Invalid
      else if first_char line = Some CHR ''#'' then Comment
      else Emit line)"

definition valid_program :: "string list \<Rightarrow> bool" where
  "valid_program ls = list_all (\<lambda>line. classify line \<noteq> Invalid) ls"

text \<open>The number of Print statements of a program.\<close>

definition count_prints :: "string list \<Rightarrow> nat" where
  "count_prints ls = length (filter (\<lambda>line. classify line = Print) ls)"

text \<open>
  The value of the string at every Print statement, in order, starting from \<open>s\<close>:
  the concatenation of the Emit payloads before it.
\<close>

fun print_snapshots :: "string \<Rightarrow> string list \<Rightarrow> string list" where
  "print_snapshots s [] = []"
| "print_snapshots s (line # rest) =
     (case classify line of
        Print \<Rightarrow> s # print_snapshots s rest
      | Emit payload \<Rightarrow> print_snapshots (s @ payload) rest
      | _ \<Rightarrow> print_snapshots s rest)"

text \<open>The 1-based number of the first Invalid line, if there is one.\<close>

fun first_invalid :: "string list \<Rightarrow> nat option" where
  "first_invalid [] = None"
| "first_invalid (line # rest) =
     (if classify line = Invalid then Some 1 else map_option Suc (first_invalid rest))"

text \<open>
  A payload that can stand between single quotes as it is: no quote, no backslash and
  no line terminator.
\<close>

definition plain :: "string \<Rightarrow> bool" where
  "plain s = list_all (\<lambda>c. c \<noteq> squote \<and> c \<noteq> backslash \<and> c \<noteq> CR \<and> c \<noteq> LF) s"

definition plain_program :: "string list \<Rightarrow> bool" where
  "plain_program ls = list_all (\<lambda>line. case classify line of Emit payload \<Rightarrow> plain payload | _ \<Rightarrow> True) ls"

subsection \<open>Instructions and the text that stands for them\<close>

text \<open>
  The generators write text; the instruction a piece of text stands for is recovered by
  \<open>instr_text\<close>, which is the three templates of the generators.
\<close>

fun instr_text :: "instr \<Rightarrow> string" where
  "instr_text (AppendLiteral v) = append_text v"
| "instr_text PrintCurrent = print_current_text"
| "instr_text (PrintLiteral v) = print_literal_text v"

definition program_text :: "instr list \<Rightarrow> string" where
  "program_text is = concat (map instr_text is)"

text \<open>
  The translation of the compiler as the specification words it: Emit becomes
  AppendLiteral of the payload, Print becomes PrintCurrent, a Comment is omitted.
\<close>

fun aot_instrs :: "string list \<Rightarrow> instr list" where
  "aot_instrs [] = []"
| "aot_instrs (line # rest) =
     (case classify line of
        Print \<Rightarrow> PrintCurrent # aot_instrs rest
      | Emit payload \<Rightarrow> AppendLiteral payload # aot_instrs rest
      | _ \<Rightarrow> aot_instrs rest)"

fun plain_instr :: "instr \<Rightarrow> bool" where
  "plain_instr (AppendLiteral v) = plain v"
| "plain_instr PrintCurrent = True"
| "plain_instr (PrintLiteral v) = plain v"

subsection \<open>Two source texts with special characters\<close>

text \<open>
  The first has the two lines \<^verbatim>\<open>a\nb\<close> (a backslash and the letter n between a and
  b) and \<^verbatim>\<open>print\<close>; the second has a line that is one single quote, and
  \<^verbatim>\<open>print\<close>.
\<close>

definition escape_example :: string where
  "escape_example = ''a'' @ [backslash] @ ''nb'' @ [CR, LF] @ ''print''"

definition quote_example :: string where
  "quote_example = [squote] @ [CR, LF] @ ''print''"

text \<open>
  Two texts whose first line holds a lone LF, which \<^verbatim>\<open>split("\r\n")\<close> does not cut
  at. The first line of the first text is \<^verbatim>\<open>a')\<close>, LF, \<^verbatim>\<open>console.log('a\<close>;
  the first line of the second is \<^verbatim>\<open>a')\<close>, LF, \<^verbatim>\<open>string += 'b'\<close>, LF,
  \<^verbatim>\<open>console.log('c\<close>. Both are followed by the line \<^verbatim>\<open>print\<close>.
\<close>

definition duplicate_example :: string where
  "duplicate_example =
     ''a'' @ [squote] @ '')'' @ [LF] @ ''console.log('' @ [squote] @ ''a'' @ [CR, LF] @ ''print''"

definition injection_example :: string where
  "injection_example =
     ''a'' @ [squote] @ '')'' @ [LF] @ ''string += '' @ [squote] @ ''b'' @ [squote] @ [LF]
       @ ''console.log('' @ [squote] @ ''c'' @ [CR, LF] @ ''print''"

section \<open>Properties\<close>

subsection \<open>The loops, line by line\<close>

lemma interpret_loop_classify:
  "interpret_loop s (line # rest) =
     (case classify line of
        Print \<Rightarrow> (case interpret_loop s rest of (out, e) \<Rightarrow> (s # out, e))
      | Invalid \<Rightarrow> ([], Some invalid_line_error)
      | Comment \<Rightarrow> interpret_loop s rest
      | Emit payload \<Rightarrow> interpret_loop (s @ payload) rest)"
  by (simp add: classify_def)

lemma compile_loop_classify:
  "compile_loop p (line # rest) =
     (case classify line of
        Print \<Rightarrow> compile_loop (p @ print_current_text) rest
      | Invalid \<Rightarrow> Inl invalid_line_error
      | Comment \<Rightarrow> compile_loop p rest
      | Emit payload \<Rightarrow> compile_loop (p @ append_text payload) rest)"
  by (simp add: classify_def)

lemma optimize_loop_classify:
  "optimize_loop p s (line # rest) =
     (case classify line of
        Print \<Rightarrow> optimize_loop (p @ print_literal_text s) s rest
      | Invalid \<Rightarrow> Inl invalid_line_error
      | Comment \<Rightarrow> optimize_loop p s rest
      | Emit payload \<Rightarrow> optimize_loop p (s @ payload) rest)"
  by (simp add: classify_def)

lemma jit_loop_compile_loop: "jit_loop p ls = compile_loop p ls"
  by (induction ls arbitrary: p) simp_all

lemma valid_program_Cons:
  "valid_program (line # rest) \<longleftrightarrow> classify line \<noteq> Invalid \<and> valid_program rest"
  by (simp add: valid_program_def)

lemma valid_program_Nil: "valid_program []"
  by (simp add: valid_program_def)

lemma interpret_loop_valid:
  "valid_program ls \<Longrightarrow> interpret_loop s ls = (print_snapshots s ls, None)"
proof (induction ls arbitrary: s)
  case Nil
  show ?case by simp
next
  case (Cons line rest)
  then have v: "valid_program rest" and c: "classify line \<noteq> Invalid"
    by (simp_all add: valid_program_Cons)
  show ?case
    using c Cons.IH [OF v]
    by (cases "classify line") (simp_all add: interpret_loop_classify del: interpret_loop.simps)
qed

lemma length_print_snapshots: "length (print_snapshots s ls) = count_prints ls"
proof (induction ls arbitrary: s)
  case Nil
  show ?case by (simp add: count_prints_def)
next
  case (Cons line rest)
  show ?case
    using Cons.IH
    by (cases "classify line") (simp_all add: count_prints_def)
qed

lemma optimize_loop_valid:
  "valid_program ls \<Longrightarrow>
   map_sum id fst (optimize_loop p s ls) = Inr (p @ concat (map print_literal_text (print_snapshots s ls)))"
proof (induction ls arbitrary: p s)
  case Nil
  show ?case by simp
next
  case (Cons line rest)
  then have v: "valid_program rest" and c: "classify line \<noteq> Invalid"
    by (simp_all add: valid_program_Cons)
  show ?case
    using c Cons.IH [OF v]
    by (cases "classify line") (simp_all add: optimize_loop_classify del: optimize_loop.simps)
qed

subsection \<open>Generated text read back by the engine\<close>

lemma split_lf_from_line:
  "LF \<notin> set a \<Longrightarrow> split_lf_from cur (a @ LF # rest) = (cur @ a) # split_lf_from [] rest"
  by (induction a arbitrary: cur) auto

lemma string_literal_plain:
  "plain v \<Longrightarrow> string_literal acc (v @ squote # rest) = Lit (acc @ v) rest"
  by (induction v arbitrary: acc) (simp_all add: plain_def)

lemma plain_no_LF: "plain v \<Longrightarrow> LF \<notin> set v"
  by (induction v) (auto simp: plain_def)

lemma parse_line_append:
  "plain v \<Longrightarrow> parse_line (''string += '' @ [squote] @ v @ [squote]) = Stmt (AppendLiteral v)"
  using string_literal_plain [of v "[]" "[]"]
  by (simp add: parse_line_def)

lemma parse_line_print_literal:
  "plain v \<Longrightarrow> parse_line (''console.log('' @ [squote] @ v @ [squote] @ '')'') = Stmt (PrintLiteral v)"
  using string_literal_plain [of v "[]" "'')''"]
  by (simp add: parse_line_def)

lemma parse_line_print_current:
  "parse_line ''console.log(string)'' = Stmt PrintCurrent"
  by (simp add: parse_line_def)

lemma split_parse_instr:
  assumes "plain_instr i"
  shows "parse_lines (split_lf_from [] (instr_text i @ rest)) =
     (case parse_lines (split_lf_from [] rest) of
        None \<Rightarrow> None
      | Some (Inl e) \<Rightarrow> Some (Inl e)
      | Some (Inr is) \<Rightarrow> Some (Inr (i # is)))"
proof (cases i)
  case (AppendLiteral v)
  with assms have pl: "plain v" by simp
  have nl: "LF \<notin> set (''string += '' @ [squote] @ v @ [squote])"
    using plain_no_LF [OF pl] by simp
  have "instr_text i @ rest = (''string += '' @ [squote] @ v @ [squote]) @ LF # rest"
    using AppendLiteral by (simp add: append_text_def)
  then have "split_lf_from [] (instr_text i @ rest) =
      (''string += '' @ [squote] @ v @ [squote]) # split_lf_from [] rest"
    using split_lf_from_line [OF nl, of "[]" rest] by simp
  then show ?thesis
    unfolding AppendLiteral using parse_line_append [OF pl] by simp
next
  case PrintCurrent
  have nl: "LF \<notin> set ''console.log(string)''" by simp
  have "instr_text i @ rest = ''console.log(string)'' @ LF # rest"
    using PrintCurrent by (simp add: print_current_text_def)
  then have "split_lf_from [] (instr_text i @ rest) =
      ''console.log(string)'' # split_lf_from [] rest"
    using split_lf_from_line [OF nl, of "[]" rest] by simp
  then show ?thesis
    unfolding PrintCurrent using parse_line_print_current by simp
next
  case (PrintLiteral v)
  with assms have pl: "plain v" by simp
  have nl: "LF \<notin> set (''console.log('' @ [squote] @ v @ [squote] @ '')'')"
    using plain_no_LF [OF pl] by simp
  have "instr_text i @ rest = (''console.log('' @ [squote] @ v @ [squote] @ '')'') @ LF # rest"
    using PrintLiteral by (simp add: print_literal_text_def)
  then have "split_lf_from [] (instr_text i @ rest) =
      (''console.log('' @ [squote] @ v @ [squote] @ '')'') # split_lf_from [] rest"
    using split_lf_from_line [OF nl, of "[]" rest] by simp
  then show ?thesis
    unfolding PrintLiteral using parse_line_print_literal [OF pl] by simp
qed

lemma parse_program_text:
  "list_all plain_instr is \<Longrightarrow>
   parse_lines (split_lf_from [] (program_text is)) = Some (Inr is)"
proof (induction "is")
  case Nil
  show ?case by (simp add: program_text_def parse_line_def)
next
  case (Cons i "is")
  then have pi: "plain_instr i" and IH: "parse_lines (split_lf_from [] (program_text is)) = Some (Inr is)"
    by simp_all
  have "program_text (i # is) = instr_text i @ program_text is"
    by (simp add: program_text_def)
  then show ?case
    using split_parse_instr [OF pi, of "program_text is"] IH by simp
qed

lemma compile_loop_valid:
  "valid_program ls \<Longrightarrow> compile_loop p ls = Inr (p @ program_text (aot_instrs ls))"
proof (induction ls arbitrary: p)
  case Nil
  show ?case by (simp add: program_text_def)
next
  case (Cons line rest)
  then have v: "valid_program rest" and c: "classify line \<noteq> Invalid"
    by (simp_all add: valid_program_Cons)
  show ?case
    using c Cons.IH [OF v]
    by (cases "classify line")
       (simp_all add: compile_loop_classify program_text_def del: compile_loop.simps)
qed

lemma exec_aot_instrs:
  "exec (Some s) (aot_instrs ls) = (print_snapshots s ls, None)"
proof (induction ls arbitrary: s)
  case Nil
  show ?case by simp
next
  case (Cons line rest)
  show ?case
    using Cons.IH by (cases "classify line") simp_all
qed

lemma exec_print_literals: "exec st (map PrintLiteral xs) = (xs, None)"
  by (induction xs) simp_all

lemma plain_append: "plain (a @ b) \<longleftrightarrow> plain a \<and> plain b"
  by (simp add: plain_def)

lemma plain_program_Cons:
  "plain_program (line # rest) \<longleftrightarrow>
     (case classify line of Emit payload \<Rightarrow> plain payload | _ \<Rightarrow> True) \<and> plain_program rest"
  by (simp add: plain_program_def)

lemma plain_aot_instrs: "plain_program ls \<Longrightarrow> list_all plain_instr (aot_instrs ls)"
proof (induction ls)
  case Nil
  show ?case by simp
next
  case (Cons line rest)
  then show ?case
    by (cases "classify line") (simp_all add: plain_program_Cons)
qed

lemma plain_print_snapshots:
  "plain_program ls \<Longrightarrow> plain s \<Longrightarrow> list_all plain (print_snapshots s ls)"
proof (induction ls arbitrary: s)
  case Nil
  show ?case by simp
next
  case (Cons line rest)
  then show ?case
    by (cases "classify line") (simp_all add: plain_program_Cons plain_append)
qed

lemma split_lf_prelude:
  "split_lf (prelude @ rest) = (''let string = '' @ [dquote, dquote]) # split_lf_from [] rest"
  by (simp add: split_lf_def prelude_def)

lemma run_js_with_prelude:
  assumes "list_all plain_instr is"
  shows "run_js (prelude @ program_text is) =
     (case exec (Some []) is of (out, e) \<Rightarrow> Ran out e)"
  using parse_program_text [OF assms]
  by (simp add: run_js_def split_lf_prelude run_lines_def)

lemma run_js_print_literals:
  assumes "list_all plain xs"
  shows "run_js (program_text (map PrintLiteral xs)) = Ran xs None"
proof -
  have pl: "list_all plain_instr (map PrintLiteral xs)"
    using assms by (induction xs) simp_all
  have parse: "parse_lines (split_lf_from [] (program_text (map PrintLiteral xs))) =
      Some (Inr (map PrintLiteral xs))"
    by (rule parse_program_text [OF pl])
  have first: "\<exists>l ls. split_lf (program_text (map PrintLiteral xs)) = l # ls
      \<and> l \<noteq> ''let string = '' @ [dquote, dquote]"
  proof (cases xs)
    case Nil
    then show ?thesis by (simp add: split_lf_def program_text_def)
  next
    case (Cons x rest)
    then have px: "plain x" using assms by simp
    have nl: "LF \<notin> set (''console.log('' @ [squote] @ x @ [squote] @ '')'')"
      using plain_no_LF [OF px] by simp
    have "program_text (map PrintLiteral xs) =
        (''console.log('' @ [squote] @ x @ [squote] @ '')'') @ LF # program_text (map PrintLiteral rest)"
      using Cons by (simp add: program_text_def print_literal_text_def)
    then show ?thesis
      unfolding split_lf_def
      using split_lf_from_line [OF nl, of "[]" "program_text (map PrintLiteral rest)"] by simp
  qed
  then obtain l ls where sp: "split_lf (program_text (map PrintLiteral xs)) = l # ls"
    and ne: "l \<noteq> ''let string = '' @ [dquote, dquote]" by blast
  have "run_js (program_text (map PrintLiteral xs)) = run_lines None (l # ls)"
    using sp ne by (simp add: run_js_def)
  also have "\<dots> = Ran xs None"
    using parse sp by (simp add: run_lines_def split_lf_def exec_print_literals)
  finally show ?thesis .
qed

subsection \<open>The interpreter prints growing strings\<close>

lemma interpret_loop_prefix:
  "x \<in> set (fst (interpret_loop s ls)) \<Longrightarrow> prefix s x"
proof (induction ls arbitrary: s)
  case Nil
  then show ?case by simp
next
  case (Cons line rest)
  show ?case
  proof (cases "classify line")
    case Comment
    with Cons show ?thesis by (simp add: interpret_loop_classify del: interpret_loop.simps)
  next
    case (Emit payload)
    with Cons.prems have "x \<in> set (fst (interpret_loop (s @ payload) rest))"
      by (simp add: interpret_loop_classify del: interpret_loop.simps)
    then have "prefix (s @ payload) x" by (rule Cons.IH)
    then show ?thesis by (rule append_prefixD)
  next
    case Print
    with Cons.prems have "x = s \<or> x \<in> set (fst (interpret_loop s rest))"
      by (simp add: interpret_loop_classify case_prod_beta del: interpret_loop.simps)
    then show ?thesis using Cons.IH by auto
  next
    case Invalid
    with Cons.prems show ?thesis
      by (simp add: interpret_loop_classify del: interpret_loop.simps)
  qed
qed

lemma interpret_loop_sorted:
  "sorted_wrt prefix (fst (interpret_loop s ls))"
proof (induction ls arbitrary: s)
  case Nil
  show ?case by simp
next
  case (Cons line rest)
  show ?case
  proof (cases "classify line")
    case Print
    have "\<forall>x \<in> set (fst (interpret_loop s rest)). prefix s x"
      using interpret_loop_prefix by blast
    then show ?thesis
      using Print Cons.IH [of s]
      by (simp add: interpret_loop_classify case_prod_beta del: interpret_loop.simps)
  qed (simp_all add: interpret_loop_classify Cons.IH del: interpret_loop.simps)
qed

text \<open>
  Claim C9. The strings printed by the interpreter are monotone under the prefix order:
  each printed string is a prefix of every string printed after it, since the state is
  only ever extended at its end. This holds for every program, valid or not, on lines
  and on source text.
\<close>

theorem printed_strings_prefix_monotone:
  "sorted_wrt prefix (fst (interpret_lines ls))
   \<and> sorted_wrt prefix (fst (interpret_source sourceCode))"
  by (simp add: interpret_lines_def interpret_source_def interpret_loop_sorted)

subsection \<open>The optimizing compiler keeps what it wrote\<close>

lemma optimize_loop_append:
  "optimize_loop p s xs = Inr (p1, s1) \<Longrightarrow> optimize_loop p s (xs @ ys) = optimize_loop p1 s1 ys"
proof (induction xs arbitrary: p s)
  case Nil
  then show ?case by simp
next
  case (Cons line rest)
  then show ?case
    by (cases "classify line") (simp_all add: optimize_loop_classify del: optimize_loop.simps)
qed

lemma optimize_loop_failed_append:
  "optimize_loop p s xs = Inl e \<Longrightarrow> optimize_loop p s (xs @ ys) = Inl e"
proof (induction xs arbitrary: p s)
  case Nil
  then show ?case by simp
next
  case (Cons line rest)
  then show ?case
    by (cases "classify line") (simp_all add: optimize_loop_classify del: optimize_loop.simps)
qed

lemma optimize_loop_extends:
  "optimize_loop p s ys = Inr (p', s') \<Longrightarrow> prefix p p'"
proof (induction ys arbitrary: p s)
  case Nil
  then show ?case by simp
next
  case (Cons line rest)
  show ?case
  proof (cases "classify line")
    case Print
    with Cons.prems have "optimize_loop (p @ print_literal_text s) s rest = Inr (p', s')"
      by (simp add: optimize_loop_classify del: optimize_loop.simps)
    then have "prefix (p @ print_literal_text s) p'" by (rule Cons.IH)
    then show ?thesis by (rule append_prefixD)
  next
    case Invalid
    with Cons.prems show ?thesis by (simp add: optimize_loop_classify del: optimize_loop.simps)
  next
    case Comment
    with Cons show ?thesis by (simp add: optimize_loop_classify del: optimize_loop.simps)
  next
    case (Emit payload)
    with Cons show ?thesis by (simp add: optimize_loop_classify del: optimize_loop.simps)
  qed
qed

lemma optimize_loop_trailing:
  "list_all (\<lambda>line. classify line \<noteq> Print \<and> classify line \<noteq> Invalid) ys \<Longrightarrow>
   \<exists>s'. optimize_loop p s ys = Inr (p, s')"
proof (induction ys arbitrary: s)
  case Nil
  show ?case by simp
next
  case (Cons line rest)
  then show ?case
    by (cases "classify line") (simp_all add: optimize_loop_classify del: optimize_loop.simps)
qed

lemma optimize_loop_single:
  "optimize_loop p s [line] =
     (case classify line of
        Print \<Rightarrow> Inr (p @ print_literal_text s, s)
      | Invalid \<Rightarrow> Inl invalid_line_error
      | Comment \<Rightarrow> Inr (p, s)
      | Emit payload \<Rightarrow> Inr (p, s @ payload))"
  by (simp add: classify_def)

text \<open>
  What the optimizing compiler has written stays as it is: an Emit line changes
  \<^verbatim>\<open>string\<close> only, and whatever lines follow, the text written so far is the
  beginning of the final text.
\<close>

lemma optimizer_keeps_written_text:
  assumes "optimize_loop [] [] ls = Inr (program, string)"
  shows "(classify eline = Emit payload \<longrightarrow>
            optimize_loop [] [] (ls @ [eline]) = Inr (program, string @ payload))
       \<and> (optimize_loop [] [] (ls @ later) = Inr (program', string') \<longrightarrow> prefix program program')"
proof -
  have step: "optimize_loop [] [] (ls @ [eline]) = optimize_loop program string [eline]"
    by (rule optimize_loop_append [OF assms])
  have later: "optimize_loop [] [] (ls @ later) = optimize_loop program string later"
    by (rule optimize_loop_append [OF assms])
  show ?thesis
    using step later optimize_loop_extends [of program string later program' string']
    by (simp add: optimize_loop_single del: optimize_loop.simps)
qed

text \<open>
  Claim C7 says that each Print emits PrintLiteral carrying the value of the string at
  that point. The code pastes the string between quotes as it is, so this fails when the
  string holds a backslash or a quote. After the line \<^verbatim>\<open>a\nb\<close> the string is the
  four characters a, backslash, n, b, and the text written at the Print reads as the
  instruction PrintLiteral of the three characters a, LF, b. After the line that is one
  single quote, the text written at the Print is not an instruction at all: a syntax
  error.
\<close>

theorem optimizer_snapshot_special_characters:
  "optimize_loop [] [] (split_crlf escape_example) =
       Inr (''console.log('' @ [squote] @ ''a'' @ [backslash] @ ''nb'' @ [squote] @ '')'' @ [LF],
            ''a'' @ [backslash] @ ''nb'')
   \<and> parse_lines (split_lf (''console.log('' @ [squote] @ ''a'' @ [backslash] @ ''nb'' @ [squote] @ '')'' @ [LF]))
       = Some (Inr [PrintLiteral (''a'' @ [LF] @ ''b'')])
   \<and> ''a'' @ [LF] @ ''b'' \<noteq> ''a'' @ [backslash] @ ''nb''
   \<and> optimize_loop [] [] (split_crlf quote_example) =
       Inr (''console.log('' @ [squote, squote, squote] @ '')'' @ [LF], [squote])
   \<and> parse_lines (split_lf (''console.log('' @ [squote, squote, squote] @ '')'' @ [LF]))
       = Some (Inl JsSyntaxError)"
  by code_simp

text \<open>
  Claim C5. Lines after the last Print that are neither Print nor Invalid leave the
  optimizing compiler's output as it is without them, whatever their payloads. For the
  lines abc, print, def the output is the one line \<^verbatim>\<open>console.log('abc')\<close>, which the
  engine reads as the single instruction PrintLiteral abc.
\<close>

theorem trailing_emits_dropped:
  assumes "list_all (\<lambda>line. classify line \<noteq> Print \<and> classify line \<noteq> Invalid) trailing"
  shows "compileOptimized_lines (ls @ trailing) = compileOptimized_lines ls
       \<and> compileOptimized_lines [''abc'', ''print'', ''def'']
           = Inr (''console.log('' @ [squote] @ ''abc'' @ [squote] @ '')'' @ [LF])
       \<and> parse_lines (split_lf (''console.log('' @ [squote] @ ''abc'' @ [squote] @ '')'' @ [LF]))
           = Some (Inr [PrintLiteral ''abc''])"
proof -
  have "compileOptimized_lines (ls @ trailing) = compileOptimized_lines ls"
  proof (cases "optimize_loop [] [] ls")
    case (Inl e)
    then show ?thesis
      by (simp add: compileOptimized_lines_def optimize_loop_failed_append)
  next
    case (Inr r)
    obtain p s where r: "r = (p, s)" by (cases r)
    obtain s' where "optimize_loop p s trailing = Inr (p, s')"
      using optimize_loop_trailing [OF assms] by blast
    then show ?thesis
      using Inr r optimize_loop_append [of "[]" "[]" ls p s trailing]
      by (simp add: compileOptimized_lines_def)
  qed
  moreover have "compileOptimized_lines [''abc'', ''print'', ''def'']
           = Inr (''console.log('' @ [squote] @ ''abc'' @ [squote] @ '')'' @ [LF])"
    by code_simp
  moreover have "parse_lines (split_lf (''console.log('' @ [squote] @ ''abc'' @ [squote] @ '')'' @ [LF]))
           = Some (Inr [PrintLiteral ''abc''])"
    by code_simp
  ultimately show ?thesis by simp
qed

text \<open>
  Trailing lines of three kinds (an Emit, a Comment, an empty line) are all dropped: the
  output is the one line \<^verbatim>\<open>console.log('abc')\<close> with them and without them.
\<close>

theorem trailing_emits_dropped_witness:
  "list_all (\<lambda>line. classify line \<noteq> Print \<and> classify line \<noteq> Invalid) [''def'', ''# x'', []]
   \<and> compileOptimized_lines ([''abc'', ''print''] @ [''def'', ''# x'', []])
        = Inr (''console.log('' @ [squote] @ ''abc'' @ [squote] @ '')'' @ [LF])
   \<and> compileOptimized_lines [''abc'', ''print'']
        = Inr (''console.log('' @ [squote] @ ''abc'' @ [squote] @ '')'' @ [LF])"
proof -
  have h: "list_all (\<lambda>line. classify line \<noteq> Print \<and> classify line \<noteq> Invalid) [''def'', ''# x'', []]"
    by (simp add: classify_def first_char_def)
  have e: "compileOptimized_lines [''abc'', ''print'']
        = Inr (''console.log('' @ [squote] @ ''abc'' @ [squote] @ '')'' @ [LF])"
    by code_simp
  have "compileOptimized_lines ([''abc'', ''print''] @ [''def'', ''# x'', []])
      = compileOptimized_lines [''abc'', ''print'']"
    using trailing_emits_dropped [OF h, of "[''abc'', ''print'']"] by (rule conjunct1)
  then show ?thesis
    using h e by simp
qed

subsection \<open>The four strategies print the same\<close>

text \<open>
  Where the Emit payloads of a valid program hold no single quote, no backslash, no CR
  and no LF, the four strategies do agree: the interpreter prints the value of the string
  at each Print and ends without error, and running the compiler's output, running the
  optimizing compiler's output and the JIT driver all print exactly the same strings.
\<close>

lemma cross_strategy_equivalence_plain:
  assumes v: "valid_program ls" and pl: "plain_program ls"
  shows "interpret_lines ls = (print_snapshots [] ls, None)
    \<and> (\<exists>program. compile_lines ls = Inr program \<and> run_js program = Ran (print_snapshots [] ls) None)
    \<and> (\<exists>program. compileOptimized_lines ls = Inr program \<and> run_js program = Ran (print_snapshots [] ls) None)
    \<and> jitRun_lines ls = Ran (print_snapshots [] ls) None"
proof -
  have i: "interpret_lines ls = (print_snapshots [] ls, None)"
    by (simp add: interpret_lines_def interpret_loop_valid [OF v])
  have c: "compile_lines ls = Inr (prelude @ program_text (aot_instrs ls))"
    by (simp add: compile_lines_def compile_loop_valid [OF v])
  have r: "run_js (prelude @ program_text (aot_instrs ls)) = Ran (print_snapshots [] ls) None"
    by (simp add: run_js_with_prelude [OF plain_aot_instrs [OF pl]] exec_aot_instrs)
  have o: "compileOptimized_lines ls = Inr (program_text (map PrintLiteral (print_snapshots [] ls)))"
    using optimize_loop_valid [OF v, of "[]" "[]"]
    by (simp add: compileOptimized_lines_def program_text_def comp_def)
  have ps: "list_all plain (print_snapshots [] ls)"
    by (rule plain_print_snapshots [OF pl]) (simp add: plain_def)
  have ro: "run_js (program_text (map PrintLiteral (print_snapshots [] ls))) = Ran (print_snapshots [] ls) None"
    by (rule run_js_print_literals [OF ps])
  have j: "jitRun_lines ls = Ran (print_snapshots [] ls) None"
    using c r by (simp add: jitRun_lines_def jit_loop_compile_loop compile_lines_def)
  show ?thesis using i c r o ro j by simp
qed

text \<open>The four lines hello, print, world, print: every strategy prints hello, hello world.\<close>

lemma cross_strategy_equivalence_plain_example:
  "valid_program [''hello'', ''print'', '' world'', ''print'']
   \<and> plain_program [''hello'', ''print'', '' world'', ''print'']
   \<and> interpret_lines [''hello'', ''print'', '' world'', ''print''] = ([''hello'', ''hello world''], None)
   \<and> jitRun_lines [''hello'', ''print'', '' world'', ''print''] = Ran [''hello'', ''hello world''] None"
proof -
  have v: "valid_program [''hello'', ''print'', '' world'', ''print'']"
    by (simp add: valid_program_def classify_def first_char_def)
  have p: "plain_program [''hello'', ''print'', '' world'', ''print'']"
    by (simp add: plain_program_def plain_def classify_def first_char_def)
  have s: "print_snapshots [] [''hello'', ''print'', '' world'', ''print''] = [''hello'', ''hello world'']"
    by (simp add: classify_def first_char_def)
  show ?thesis
    using v p cross_strategy_equivalence_plain [OF v p] unfolding s by simp
qed

text \<open>
  Claim C1 says that the four strategies print the same for every payload, a backslash
  or a quote included. The generators paste the line between single quotes without
  escaping it, so the code does not do this. On the first text the interpreter prints
  the four characters a, backslash, n, b, while the JIT driver and both compiled
  programs print a, line feed, b. On the second text the interpreter prints a single
  quote, while the generated program text is rejected with a syntax error before
  anything is printed.
\<close>

theorem cross_strategy_special_characters_diverge:
  "valid_program (split_crlf escape_example)
   \<and> interpret_source escape_example = ([''a'' @ [backslash] @ ''nb''], None)
   \<and> jitRun_source escape_example = Ran [''a'' @ [LF] @ ''b''] None
   \<and> map_sum id run_js (compile_source escape_example) = Inr (Ran [''a'' @ [LF] @ ''b''] None)
   \<and> map_sum id run_js (compileOptimized_source escape_example) = Inr (Ran [''a'' @ [LF] @ ''b''] None)
   \<and> valid_program (split_crlf quote_example)
   \<and> interpret_source quote_example = ([[squote]], None)
   \<and> jitRun_source quote_example = Ran [] (Some JsSyntaxError)
   \<and> map_sum id run_js (compile_source quote_example) = Inr (Ran [] (Some JsSyntaxError))
   \<and> map_sum id run_js (compileOptimized_source quote_example) = Inr (Ran [] (Some JsSyntaxError))"
  by code_simp

subsection \<open>The interpreter stops at the first Invalid line\<close>

lemma first_invalid_pos: "first_invalid ls = Some L \<Longrightarrow> 0 < L"
  by (cases ls) (auto split: if_splits)

lemma interpret_loop_first_invalid:
  "first_invalid ls = Some L \<Longrightarrow>
   interpret_loop s ls = (print_snapshots s (take (L - 1) ls), Some invalid_line_error)"
proof (induction ls arbitrary: s L)
  case Nil
  then show ?case by simp
next
  case (Cons line rest)
  show ?case
  proof (cases "classify line = Invalid")
    case True
    with Cons.prems have "L = 1" by simp
    then show ?thesis
      using True by (simp add: interpret_loop_classify del: interpret_loop.simps)
  next
    case False
    with Cons.prems obtain L' where L': "first_invalid rest = Some L'" and L: "L = Suc L'"
      by auto
    have pos: "0 < L'" by (rule first_invalid_pos [OF L'])
    then have tk: "take (L - 1) (line # rest) = line # take (L' - 1) rest"
      using L by (cases L') simp_all
    show ?thesis
      unfolding tk using False Cons.IH [OF L']
      by (cases "classify line") (simp_all add: interpret_loop_classify del: interpret_loop.simps)
  qed
qed

lemma first_invalid_take_valid:
  "first_invalid ls = Some L \<Longrightarrow> valid_program (take (L - 1) ls)"
proof (induction ls arbitrary: L)
  case Nil
  then show ?case by simp
next
  case (Cons line rest)
  show ?case
  proof (cases "classify line = Invalid")
    case True
    with Cons.prems have "L = 1" by simp
    then show ?thesis by (simp add: valid_program_Nil)
  next
    case False
    with Cons.prems obtain L' where L': "first_invalid rest = Some L'" and L: "L = Suc L'"
      by auto
    have pos: "0 < L'" by (rule first_invalid_pos [OF L'])
    then have tk: "take (L - 1) (line # rest) = line # take (L' - 1) rest"
      using L by (cases L') simp_all
    show ?thesis
      unfolding tk using False Cons.IH [OF L'] by (simp add: valid_program_Cons)
  qed
qed

lemma first_invalid_nth:
  "first_invalid ls = Some L \<Longrightarrow> L \<le> length ls \<and> classify (ls ! (L - 1)) = Invalid"
proof (induction ls arbitrary: L)
  case Nil
  then show ?case by simp
next
  case (Cons line rest)
  show ?case
  proof (cases "classify line = Invalid")
    case True
    with Cons.prems have "L = 1" by simp
    then show ?thesis using True by simp
  next
    case False
    with Cons.prems obtain L' where L': "first_invalid rest = Some L'" and L: "L = Suc L'"
      by auto
    have pos: "0 < L'" by (rule first_invalid_pos [OF L'])
    show ?thesis
      using L pos Cons.IH [OF L'] by (cases L') simp_all
  qed
qed

text \<open>
  Claim C2, amended. When line \<open>L\<close> is the first Invalid line, the interpreter prints
  exactly what it prints on the lines before \<open>L\<close> (one string per Print line among
  them, and these lines hold no Invalid one), then throws the error with the fixed
  message, and prints nothing after it.
\<close>

theorem interpreter_partial_progress:
  assumes "first_invalid ls = Some L"
  shows "interpret_lines ls = (print_snapshots [] (take (L - 1) ls), Some invalid_line_error)
       \<and> interpret_lines (take (L - 1) ls) = (print_snapshots [] (take (L - 1) ls), None)
       \<and> length (print_snapshots [] (take (L - 1) ls)) = count_prints (take (L - 1) ls)
       \<and> classify (ls ! (L - 1)) = Invalid
       \<and> valid_program (take (L - 1) ls)"
  using interpret_loop_first_invalid [OF assms, of "[]"]
    interpret_loop_valid [OF first_invalid_take_valid [OF assms], of "[]"]
    first_invalid_take_valid [OF assms] first_invalid_nth [OF assms]
  by (simp add: interpret_lines_def length_print_snapshots)

text \<open>On the lines a, print, this, print: a is printed, then the throw at line 3.\<close>

theorem interpreter_partial_progress_witness:
  "first_invalid [''a'', ''print'', ''this'', ''print''] = Some 3
   \<and> interpret_lines [''a'', ''print'', ''this'', ''print''] = ([''a''], Some invalid_line_error)"
proof -
  have h: "first_invalid [''a'', ''print'', ''this'', ''print''] = Some 3"
    by (simp add: classify_def first_char_def)
  have s: "print_snapshots [] (take (3 - 1) [''a'', ''print'', ''this'', ''print'']) = [''a'']"
    by (simp add: classify_def first_char_def)
  show ?thesis
    using h interpreter_partial_progress [OF h] unfolding s by simp
qed

text \<open>
  Claim C2 as stated fails in one point: the error does not carry the line. The first
  Invalid line is line 1 in one text and line 2 in the other, and the interpreter throws
  the same error, with the same message, on both.
\<close>

theorem interpreter_error_without_line_counterexample:
  "first_invalid (split_crlf ''t'') = Some 1
   \<and> first_invalid (split_crlf (''a'' @ [CR, LF] @ ''t'')) = Some 2
   \<and> snd (interpret_source ''t'') = Some (JsError ''ERROR I AM AN INVALID LINE'')
   \<and> snd (interpret_source (''a'' @ [CR, LF] @ ''t'')) = Some (JsError ''ERROR I AM AN INVALID LINE'')"
  by code_simp

subsection \<open>The compilers and the JIT driver do nothing on an invalid program\<close>

lemma compile_loop_invalid:
  "\<not> valid_program ls \<Longrightarrow> compile_loop p ls = Inl invalid_line_error"
proof (induction ls arbitrary: p)
  case Nil
  then show ?case by (simp add: valid_program_Nil)
next
  case (Cons line rest)
  then show ?case
    by (cases "classify line")
       (simp_all add: compile_loop_classify valid_program_Cons del: compile_loop.simps)
qed

lemma optimize_loop_invalid:
  "\<not> valid_program ls \<Longrightarrow> optimize_loop p s ls = Inl invalid_line_error"
proof (induction ls arbitrary: p s)
  case Nil
  then show ?case by (simp add: valid_program_Nil)
next
  case (Cons line rest)
  then show ?case
    by (cases "classify line")
       (simp_all add: optimize_loop_classify valid_program_Cons del: optimize_loop.simps)
qed

text \<open>
  Claim C3. When the source text holds an Invalid line, the compiler, the optimizing
  compiler and the JIT driver each throw the error of the invalid line; the JIT driver
  prints nothing, and both compilers leave the file store exactly as it was: no output
  file is written, whole or in part.
\<close>

theorem compilers_all_or_nothing:
  assumes inv: "\<not> valid_program (split_crlf sourceCode)"
    and src: "fs ''./hello-world.qs'' = Some sourceCode"
  shows "compile_source sourceCode = Inl invalid_line_error
       \<and> compileOptimized_source sourceCode = Inl invalid_line_error
       \<and> jitRun_source sourceCode = Ran [] (Some invalid_line_error)
       \<and> compiler_main fs = (fs, Some invalid_line_error)
       \<and> optimizer_main fs = (fs, Some invalid_line_error)"
proof -
  have c: "compile_source sourceCode = Inl invalid_line_error"
    by (simp add: compile_source_def compile_lines_def compile_loop_invalid [OF inv])
  have o: "compileOptimized_source sourceCode = Inl invalid_line_error"
    by (simp add: compileOptimized_source_def compileOptimized_lines_def optimize_loop_invalid [OF inv])
  have j: "jitRun_source sourceCode = Ran [] (Some invalid_line_error)"
    by (simp add: jitRun_source_def jitRun_lines_def jit_loop_compile_loop compile_loop_invalid [OF inv])
  show ?thesis
    using c o j src by (simp add: compiler_main_def optimizer_main_def)
qed

text \<open>The text of the lines abc and this-is-invalid, in a store that holds only the source.\<close>

theorem compilers_all_or_nothing_witness:
  "\<not> valid_program (split_crlf (''abc'' @ [CR, LF] @ ''this-is-invalid''))
   \<and> (Map.empty(''./hello-world.qs'' \<mapsto> ''abc'' @ [CR, LF] @ ''this-is-invalid'')) ''./hello-world.qs''
        = Some (''abc'' @ [CR, LF] @ ''this-is-invalid'')
   \<and> jitRun_source (''abc'' @ [CR, LF] @ ''this-is-invalid'') = Ran [] (Some invalid_line_error)
   \<and> compiler_main (Map.empty(''./hello-world.qs'' \<mapsto> ''abc'' @ [CR, LF] @ ''this-is-invalid''))
        = (Map.empty(''./hello-world.qs'' \<mapsto> ''abc'' @ [CR, LF] @ ''this-is-invalid''), Some invalid_line_error)
   \<and> optimizer_main (Map.empty(''./hello-world.qs'' \<mapsto> ''abc'' @ [CR, LF] @ ''this-is-invalid''))
        = (Map.empty(''./hello-world.qs'' \<mapsto> ''abc'' @ [CR, LF] @ ''this-is-invalid''), Some invalid_line_error)"
proof -
  have h: "\<not> valid_program (split_crlf (''abc'' @ [CR, LF] @ ''this-is-invalid''))"
    by (simp add: split_crlf_def valid_program_def classify_def first_char_def)
  have f: "(Map.empty(''./hello-world.qs'' \<mapsto> ''abc'' @ [CR, LF] @ ''this-is-invalid'')) ''./hello-world.qs''
        = Some (''abc'' @ [CR, LF] @ ''this-is-invalid'')"
    by simp
  show ?thesis
    using h f
      compilers_all_or_nothing [where sourceCode = "''abc'' @ [CR, LF] @ ''this-is-invalid''"
        and fs = "Map.empty(''./hello-world.qs'' \<mapsto> ''abc'' @ [CR, LF] @ ''this-is-invalid'')", OF h f]
    by simp
qed

subsection \<open>What the optimizing compiler's output holds\<close>

text \<open>
  For a valid program with plain payloads the optimizing compiler's output reads back as
  PrintLiteral instructions only, one per Print line, each holding the value of the
  string at that line.
\<close>

lemma optimized_plain_reads_back:
  assumes v: "valid_program ls" and pl: "plain_program ls"
  shows "\<exists>text. compileOptimized_lines ls = Inr text
           \<and> parse_lines (split_lf text) = Some (Inr (map PrintLiteral (print_snapshots [] ls)))
           \<and> length (map PrintLiteral (print_snapshots [] ls)) = count_prints ls"
proof -
  have o: "compileOptimized_lines ls = Inr (program_text (map PrintLiteral (print_snapshots [] ls)))"
    using optimize_loop_valid [OF v, of "[]" "[]"]
    by (simp add: compileOptimized_lines_def program_text_def comp_def)
  have "list_all plain (print_snapshots [] ls)"
    by (rule plain_print_snapshots [OF pl]) (simp add: plain_def)
  then have "list_all plain_instr (map PrintLiteral (print_snapshots [] ls))"
    by (simp add: list_all_iff)
  then have "parse_lines (split_lf (program_text (map PrintLiteral (print_snapshots [] ls))))
      = Some (Inr (map PrintLiteral (print_snapshots [] ls)))"
    unfolding split_lf_def by (rule parse_program_text)
  then show ?thesis using o by (simp add: length_print_snapshots)
qed

text \<open>
  Claim C4 says that for every valid program the optimizing compiler's output holds
  PrintLiteral instructions only, as many as the program has Print lines. The code
  pastes the string between quotes as it is, so a payload with a quote changes what the
  output holds. Both texts below are valid and have one Print line. The output for the
  first is two \<^verbatim>\<open>console.log\<close> lines, two PrintLiteral instructions, and prints a
  twice. The output for the second is three instructions, the middle one an
  AppendLiteral; run, it prints a and then throws a ReferenceError.
\<close>

theorem optimized_output_extra_instructions:
  "valid_program (split_crlf duplicate_example)
   \<and> count_prints (split_crlf duplicate_example) = 1
   \<and> compileOptimized_source duplicate_example =
       Inr (''console.log('' @ [squote] @ ''a'' @ [squote] @ '')'' @ [LF]
            @ ''console.log('' @ [squote] @ ''a'' @ [squote] @ '')'' @ [LF])
   \<and> map_sum id (parse_lines \<circ> split_lf) (compileOptimized_source duplicate_example) =
       Inr (Some (Inr [PrintLiteral ''a'', PrintLiteral ''a'']))
   \<and> map_sum id run_js (compileOptimized_source duplicate_example) = Inr (Ran [''a'', ''a''] None)
   \<and> valid_program (split_crlf injection_example)
   \<and> count_prints (split_crlf injection_example) = 1
   \<and> compileOptimized_source injection_example =
       Inr (''console.log('' @ [squote] @ ''a'' @ [squote] @ '')'' @ [LF]
            @ ''string += '' @ [squote] @ ''b'' @ [squote] @ [LF]
            @ ''console.log('' @ [squote] @ ''c'' @ [squote] @ '')'' @ [LF])
   \<and> map_sum id (parse_lines \<circ> split_lf) (compileOptimized_source injection_example) =
       Inr (Some (Inr [PrintLiteral ''a'', AppendLiteral ''b'', PrintLiteral ''c'']))
   \<and> map_sum id run_js (compileOptimized_source injection_example) = Inr (Ran [''a''] (Some JsReferenceError))"
  by code_simp

subsection \<open>Classification\<close>

text \<open>
  Claim C6. The kind of a line is decided by its first character alone: \<^verbatim>\<open>#\<close> is a
  Comment, \<^verbatim>\<open>p\<close> a Print, \<^verbatim>\<open>t\<close> an Invalid line, and every other line,
  the empty one included, is an Emit whose payload is the whole line. Each of the four
  loops acts on a line by this kind.
\<close>

theorem classify_by_first_character:
  "classify line =
     (case line of
        [] \<Rightarrow> Emit []
      | c # cs \<Rightarrow>
          if c = CHR ''#'' then Comment
          else if c = CHR ''p'' then Print
          else if c = CHR ''t'' then Invalid
          else Emit line)
   \<and> interpret_loop s (line # rest) =
     (case classify line of
        Print \<Rightarrow> (case interpret_loop s rest of (out, e) \<Rightarrow> (s # out, e))
      | Invalid \<Rightarrow> ([], Some invalid_line_error)
      | Comment \<Rightarrow> interpret_loop s rest
      | Emit payload \<Rightarrow> interpret_loop (s @ payload) rest)
   \<and> compile_loop p (line # rest) =
     (case classify line of
        Print \<Rightarrow> compile_loop (p @ print_current_text) rest
      | Invalid \<Rightarrow> Inl invalid_line_error
      | Comment \<Rightarrow> compile_loop p rest
      | Emit payload \<Rightarrow> compile_loop (p @ append_text payload) rest)
   \<and> jit_loop p (line # rest) =
     (case classify line of
        Print \<Rightarrow> jit_loop (p @ print_current_text) rest
      | Invalid \<Rightarrow> Inl invalid_line_error
      | Comment \<Rightarrow> jit_loop p rest
      | Emit payload \<Rightarrow> jit_loop (p @ append_text payload) rest)
   \<and> optimize_loop p s (line # rest) =
     (case classify line of
        Print \<Rightarrow> optimize_loop (p @ print_literal_text s) s rest
      | Invalid \<Rightarrow> Inl invalid_line_error
      | Comment \<Rightarrow> optimize_loop p s rest
      | Emit payload \<Rightarrow> optimize_loop p (s @ payload) rest)"
proof -
  have "classify line =
     (case line of
        [] \<Rightarrow> Emit []
      | c # cs \<Rightarrow>
          if c = CHR ''#'' then Comment
          else if c = CHR ''p'' then Print
          else if c = CHR ''t'' then Invalid
          else Emit line)"
    by (cases line) (simp_all add: classify_def first_char_def)
  then show ?thesis
    using interpret_loop_classify [of s line rest] compile_loop_classify [of p line rest]
      optimize_loop_classify [of p s line rest]
    by (simp only: jit_loop_compile_loop simp_thms)
qed

subsection \<open>The compiler's output\<close>

lemma compile_loop_extends:
  "compile_loop p ls = Inr p' \<Longrightarrow> prefix p p'"
proof (induction ls arbitrary: p)
  case Nil
  then show ?case by simp
next
  case (Cons line rest)
  show ?case
  proof (cases "classify line")
    case Print
    with Cons.prems have "compile_loop (p @ print_current_text) rest = Inr p'"
      by (simp add: compile_loop_classify del: compile_loop.simps)
    then have "prefix (p @ print_current_text) p'" by (rule Cons.IH)
    then show ?thesis by (rule append_prefixD)
  next
    case Invalid
    with Cons.prems show ?thesis by (simp add: compile_loop_classify del: compile_loop.simps)
  next
    case Comment
    with Cons show ?thesis by (simp add: compile_loop_classify del: compile_loop.simps)
  next
    case (Emit payload)
    with Cons.prems have "compile_loop (p @ append_text payload) rest = Inr p'"
      by (simp add: compile_loop_classify del: compile_loop.simps)
    then have "prefix (p @ append_text payload) p'" by (rule Cons.IH)
    then show ?thesis by (rule append_prefixD)
  qed
qed

text \<open>
  Claim C10. Whenever the compiler writes its output file, the text written begins with
  the line \<^verbatim>\<open>let string = ""\<close>. The empty source text is one empty line, an Emit with
  empty payload; compiling it succeeds, and the program written prints nothing when run.
\<close>

theorem compiled_text_begins_with_prelude:
  "(fs ''./hello-world.qs'' = Some sourceCode \<and> compiler_main fs = (fs', None) \<longrightarrow>
      (\<exists>program. fs' ''./output.js'' = Some program
         \<and> prefix (''let string = '' @ [dquote, dquote, LF]) program))
   \<and> split_crlf [] = [[]]
   \<and> classify [] = Emit []
   \<and> compile_source [] = Inr (''let string = '' @ [dquote, dquote, LF] @  ''string += '' @ [squote, squote, LF])
   \<and> run_js (''let string = '' @ [dquote, dquote, LF] @  ''string += '' @ [squote, squote, LF]) = Ran [] None"
proof -
  have a: "\<exists>program. fs' ''./output.js'' = Some program
         \<and> prefix (''let string = '' @ [dquote, dquote, LF]) program"
    if src: "fs ''./hello-world.qs'' = Some sourceCode" and run: "compiler_main fs = (fs', None)"
  proof (cases "compile_source sourceCode")
    case (Inl e)
    with src run show ?thesis by (simp add: compiler_main_def)
  next
    case (Inr program)
    then have "prefix prelude program"
      unfolding compile_source_def compile_lines_def by (rule compile_loop_extends)
    moreover have "fs' = fs(''./output.js'' \<mapsto> program)"
      using src run Inr by (simp add: compiler_main_def)
    ultimately show ?thesis by (simp add: prelude_def)
  qed
  have b: "split_crlf [] = [[]]" by (simp add: split_crlf_def)
  have c: "classify [] = Emit []" by (simp add: classify_def first_char_def)
  have d: "compile_source [] = Inr (''let string = '' @ [dquote, dquote, LF] @  ''string += '' @ [squote, squote, LF])"
    by (simp add: compile_source_def compile_lines_def split_crlf_def first_char_def prelude_def append_text_def)
  have e: "run_js (''let string = '' @ [dquote, dquote, LF] @  ''string += '' @ [squote, squote, LF]) = Ran [] None"
    by code_simp
  show ?thesis using a b c d e by blast
qed

text \<open>The store whose source file is empty: the run succeeds and writes the two-line program.\<close>

theorem compiled_text_begins_with_prelude_witness:
  "(Map.empty(''./hello-world.qs'' \<mapsto> [])) ''./hello-world.qs'' = Some []
   \<and> compiler_main (Map.empty(''./hello-world.qs'' \<mapsto> []))
       = ((Map.empty(''./hello-world.qs'' \<mapsto> []))
            (''./output.js'' \<mapsto> ''let string = '' @ [dquote, dquote, LF] @  ''string += '' @ [squote, squote, LF]), None)
   \<and> (\<exists>program. ((Map.empty(''./hello-world.qs'' \<mapsto> []))
            (''./output.js'' \<mapsto> ''let string = '' @ [dquote, dquote, LF] @  ''string += '' @ [squote, squote, LF])) ''./output.js'' = Some program
         \<and> prefix (''let string = '' @ [dquote, dquote, LF]) program)"
proof -
  have f: "(Map.empty(''./hello-world.qs'' \<mapsto> [])) ''./hello-world.qs'' = Some []" by simp
  have m: "compiler_main (Map.empty(''./hello-world.qs'' \<mapsto> []))
       = ((Map.empty(''./hello-world.qs'' \<mapsto> []))
            (''./output.js'' \<mapsto> ''let string = '' @ [dquote, dquote, LF] @  ''string += '' @ [squote, squote, LF]), None)"
    by (simp add: compiler_main_def compile_source_def compile_lines_def split_crlf_def first_char_def prelude_def append_text_def)
  note t = compiled_text_begins_with_prelude [of "Map.empty(''./hello-world.qs'' \<mapsto> [])" "[]"
        "(Map.empty(''./hello-world.qs'' \<mapsto> []))
            (''./output.js'' \<mapsto> ''let string = '' @ [dquote, dquote, LF] @  ''string += '' @ [squote, squote, LF])"]
  have ex: "\<exists>program. ((Map.empty(''./hello-world.qs'' \<mapsto> []))
            (''./output.js'' \<mapsto> ''let string = '' @ [dquote, dquote, LF] @  ''string += '' @ [squote, squote, LF])) ''./output.js'' = Some program
         \<and> prefix (''let string = '' @ [dquote, dquote, LF]) program"
    by (rule mp [OF conjunct1 [OF t] conjI [OF f m]])
  show ?thesis
    using f m ex by (intro conjI)
qed

text \<open>
  Claim C8. The compiler is deterministic: on a valid source text the output file holds
  the same text whatever else the store held before, and running the compiler a second
  time on the store it produced changes nothing.
\<close>

theorem compiler_deterministic:
  assumes src: "fs ''./hello-world.qs'' = Some sourceCode"
    and src2: "fs2 ''./hello-world.qs'' = Some sourceCode"
    and v: "valid_program (split_crlf sourceCode)"
  shows "compile_source sourceCode = Inr (prelude @ program_text (aot_instrs (split_crlf sourceCode)))
       \<and> compiler_main fs =
           (fs(''./output.js'' \<mapsto> prelude @ program_text (aot_instrs (split_crlf sourceCode))), None)
       \<and> compiler_main fs2 =
           (fs2(''./output.js'' \<mapsto> prelude @ program_text (aot_instrs (split_crlf sourceCode))), None)
       \<and> compiler_main (fst (compiler_main fs)) = compiler_main fs"
proof -
  have c: "compile_source sourceCode = Inr (prelude @ program_text (aot_instrs (split_crlf sourceCode)))"
    by (simp add: compile_source_def compile_lines_def compile_loop_valid [OF v])
  have m: "compiler_main g =
      (g(''./output.js'' \<mapsto> prelude @ program_text (aot_instrs (split_crlf sourceCode))), None)"
    if "g ''./hello-world.qs'' = Some sourceCode" for g
    using that c by (simp add: compiler_main_def)
  have again: "(fs(''./output.js'' \<mapsto> prelude @ program_text (aot_instrs (split_crlf sourceCode))))
      ''./hello-world.qs'' = Some sourceCode"
    using src by simp
  show ?thesis
    using c m [of fs, OF src] m [of fs2, OF src2]
      m [of "fs(''./output.js'' \<mapsto> prelude @ program_text (aot_instrs (split_crlf sourceCode)))", OF again]
    by simp
qed

text \<open>A fresh store and a store with a stale output file end with the same output text.\<close>

theorem compiler_deterministic_witness:
  "valid_program (split_crlf (''hello'' @ [CR, LF] @ ''print''))
   \<and> compiler_main (Map.empty(''./hello-world.qs'' \<mapsto> ''hello'' @ [CR, LF] @ ''print''))
      = ((Map.empty(''./hello-world.qs'' \<mapsto> ''hello'' @ [CR, LF] @ ''print''))
           (''./output.js'' \<mapsto> prelude @ program_text [AppendLiteral ''hello'', PrintCurrent]), None)
   \<and> compiler_main (Map.empty(''./output.js'' \<mapsto> ''stale'', ''./hello-world.qs'' \<mapsto> ''hello'' @ [CR, LF] @ ''print''))
      = ((Map.empty(''./output.js'' \<mapsto> ''stale'', ''./hello-world.qs'' \<mapsto> ''hello'' @ [CR, LF] @ ''print''))
           (''./output.js'' \<mapsto> prelude @ program_text [AppendLiteral ''hello'', PrintCurrent]), None)"
proof -
  have v: "valid_program (split_crlf (''hello'' @ [CR, LF] @ ''print''))"
    by (simp add: split_crlf_def valid_program_def classify_def first_char_def)
  have f1: "(Map.empty(''./hello-world.qs'' \<mapsto> ''hello'' @ [CR, LF] @ ''print'')) ''./hello-world.qs''
      = Some (''hello'' @ [CR, LF] @ ''print'')" by simp
  have f2: "(Map.empty(''./output.js'' \<mapsto> ''stale'', ''./hello-world.qs'' \<mapsto> ''hello'' @ [CR, LF] @ ''print'')) ''./hello-world.qs''
      = Some (''hello'' @ [CR, LF] @ ''print'')" by simp
  have a: "aot_instrs (split_crlf (''hello'' @ [CR, LF] @ ''print'')) = [AppendLiteral ''hello'', PrintCurrent]"
    by (simp add: split_crlf_def classify_def first_char_def)
  show ?thesis
    using v
      compiler_deterministic [where sourceCode = "''hello'' @ [CR, LF] @ ''print''"
        and fs = "Map.empty(''./hello-world.qs'' \<mapsto> ''hello'' @ [CR, LF] @ ''print'')"
        and ?fs2.0 = "Map.empty(''./output.js'' \<mapsto> ''stale'', ''./hello-world.qs'' \<mapsto> ''hello'' @ [CR, LF] @ ''print'')",
        OF f1 f2 v]
    unfolding a by simp
qed

end
